theory Spec2Isabelle
  imports
    Complex_Main
    "HOL-Library.Char_ord"
    "HOL-Library.List_Lexorder"
    "HOL-Library.Product_Lexorder"
begin

section \<open>Directory tree generator: data model\<close>

text \<open>
  A shallow embedding of \<^verbatim>\<open>others/directory-tree/directory_tree_generator.py\<close>.
  Names are byte strings; \<^verbatim>\<open>str.lower\<close> is modelled on ASCII letters, and Python's
  comparison of strings is the lexicographic order on lists of characters.
\<close>

datatype OutputFormat = TEXT | MARKDOWN | HTML | JSON

record TreeStats =
  total_dirs :: nat
  total_files :: nat
  skipped :: nat
  errors :: nat

definition TreeStats_init :: TreeStats where
  "TreeStats_init = \<lparr>total_dirs = 0, total_files = 0, skipped = 0, errors = 0\<rparr>"

record TreeConfig =
  max_depth :: "int option"
  show_hidden :: bool
  dirs_only :: bool
  show_size :: bool
  show_permissions :: bool
  ignore_patterns :: "string set"

definition TreeConfig_default :: TreeConfig where
  "TreeConfig_default =
     \<lparr>max_depth = None, show_hidden = False, dirs_only = False, show_size = False,
      show_permissions = False, ignore_patterns = {}\<rparr>"

text \<open>
  What \<^verbatim>\<open>Path.stat()\<close> returns for an entry; \<open>None\<close> stands for a \<^verbatim>\<open>stat\<close> call
  that raises \<^verbatim>\<open>OSError\<close>.
\<close>

record stat_result =
  st_size :: nat
  st_mode :: nat

text \<open>
  The part of the file system that the generator reads. A \<open>PFile\<close> is a regular
  file, a \<open>PDir\<close> a directory whose \<^verbatim>\<open>iterdir()\<close> yields the given entries in the
  given order, and a \<open>PBadDir\<close> a directory whose listing raises; it carries the text
  of the exception (\<^verbatim>\<open>str(e)\<close>).
\<close>

datatype path =
    PFile string "stat_result option"
  | PDir string "stat_result option" "path list"
  | PBadDir string "stat_result option" string

fun name :: "path \<Rightarrow> string" where
  "name (PFile n s) = n"
| "name (PDir n s es) = n"
| "name (PBadDir n s m) = n"

fun stat :: "path \<Rightarrow> stat_result option" where
  "stat (PFile n s) = s"
| "stat (PDir n s es) = s"
| "stat (PBadDir n s m) = s"

fun is_dir :: "path \<Rightarrow> bool" where
  "is_dir (PFile n s) = False"
| "is_dir (PDir n s es) = True"
| "is_dir (PBadDir n s m) = True"

fun is_file :: "path \<Rightarrow> bool" where
  "is_file (PFile n s) = True"
| "is_file (PDir n s es) = False"
| "is_file (PBadDir n s m) = False"

section \<open>Strings\<close>

definition startswith :: "string \<Rightarrow> string \<Rightarrow> bool" where
  "startswith s p = (take (length p) s = p)"

definition endswith :: "string \<Rightarrow> string \<Rightarrow> bool" where
  "endswith s p = (length p \<le> length s \<and> drop (length s - length p) s = p)"

definition lower_char :: "char \<Rightarrow> char" where
  "lower_char c =
     (if CHR ''A'' \<le> c \<and> c \<le> CHR ''Z'' then char_of (of_char c + (32::nat)) else c)"

definition lower :: "string \<Rightarrow> string" where
  "lower s = map lower_char s"

definition digit_char :: "nat \<Rightarrow> char" where
  "digit_char d = char_of (48 + d)"

fun show_nat :: "nat \<Rightarrow> string" where
  "show_nat n = (if n < 10 then [digit_char n] else show_nat (n div 10) @ [digit_char (n mod 10)])"

declare show_nat.simps [simp del]

fun oct_digits :: "nat \<Rightarrow> string" where
  "oct_digits n = (if n < 8 then [digit_char n] else oct_digits (n div 8) @ [digit_char (n mod 8)])"

declare oct_digits.simps [simp del]

text \<open>\<^verbatim>\<open>oct(n)\<close> for a non-negative \<open>n\<close>.\<close>

definition oct :: "nat \<Rightarrow> string" where
  "oct n = ''0o'' @ oct_digits n"

text \<open>\<^verbatim>\<open>s[-3:]\<close>.\<close>

definition last3 :: "string \<Rightarrow> string" where
  "last3 s = drop (length s - 3) s"

text \<open>\<^verbatim>\<open>sep.join(parts)\<close>.\<close>

fun join :: "string \<Rightarrow> string list \<Rightarrow> string" where
  "join sep [] = []"
| "join sep [x] = x"
| "join sep (x # y # ys) = x @ sep @ join sep (y # ys)"

section \<open>The ignore filter\<close>

definition DEFAULT_IGNORE :: "string set" where
  "DEFAULT_IGNORE =
     {''__pycache__'', ''.git'', ''.svn'', ''.hg'', ''node_modules'',
      ''.idea'', ''.vscode'', ''.DS_Store'', ''venv'', ''env'',
      ''.pytest_cache'', ''.mypy_cache'', ''__MACOSX''}"

text \<open>The attribute \<^verbatim>\<open>self.ignore_patterns\<close> that \<^verbatim>\<open>__init__\<close> computes.\<close>

definition generator_ignore_patterns :: "TreeConfig \<Rightarrow> string set" where
  "generator_ignore_patterns cfg = DEFAULT_IGNORE \<union> ignore_patterns cfg"

text \<open>The body of the loop over the patterns in \<^verbatim>\<open>should_ignore\<close>.\<close>

definition pattern_matches :: "string \<Rightarrow> string \<Rightarrow> bool" where
  "pattern_matches pattern entry =
     (if CHR ''*'' \<in> set pattern then
        (if startswith pattern ''*'' then endswith entry (drop 1 pattern)
         else if endswith pattern ''*'' then startswith entry (butlast pattern)
         else False)
      else False)"

definition should_ignore :: "TreeConfig \<Rightarrow> string \<Rightarrow> bool" where
  "should_ignore cfg entry =
     (if \<not> show_hidden cfg \<and> startswith entry ''.'' then True
      else if entry \<in> generator_ignore_patterns cfg then True
      else (\<exists>pattern \<in> generator_ignore_patterns cfg. pattern_matches pattern entry))"

section \<open>Size formatting\<close>

text \<open>
  \<^verbatim>\<open>_format_size\<close> divides a float by \<open>1024.0\<close>. For a size below \<open>2 ^ 53\<close> every such
  division is exact in binary floating point, so the running value is the rational
  number computed here, and \<^verbatim>\<open>:.1f\<close> rounds it to the nearest tenth, a tie going to the
  even tenth.
\<close>

definition round_half_even :: "rat \<Rightarrow> int" where
  "round_half_even x =
     (let f = \<lfloor>x\<rfloor>; r = x - of_int f in
      if r < 1 / 2 then f else if 1 / 2 < r then f + 1 else if even f then f else f + 1)"

definition tenths :: "rat \<Rightarrow> nat" where
  "tenths x = nat (round_half_even (10 * x))"

definition fmt_1f :: "rat \<Rightarrow> string" where
  "fmt_1f x = show_nat (tenths x div 10) @ ''.'' @ [digit_char (tenths x mod 10)]"

fun format_size_loop :: "rat \<Rightarrow> string list \<Rightarrow> string" where
  "format_size_loop sz [] = ''('' @ fmt_1f sz @ ''PB)''"
| "format_size_loop sz (u # units) =
     (if sz < 1024 then ''('' @ fmt_1f sz @ u @ '')''
      else format_size_loop (sz / 1024) units)"

definition format_size :: "nat \<Rightarrow> string" where
  "format_size sz = format_size_loop (of_nat sz) [''B'', ''KB'', ''MB'', ''GB'', ''TB'']"

section \<open>Listing a directory\<close>

text \<open>
  \<^verbatim>\<open>directory.iterdir()\<close>: the entries, or the text of the exception. Called on a regular
  file it raises \<^verbatim>\<open>NotADirectoryError\<close>.
\<close>

fun iterdir :: "path \<Rightarrow> string + path list" where
  "iterdir (PDir n s es) = Inr es"
| "iterdir (PBadDir n s m) = Inl m"
| "iterdir (PFile n s) = Inl ''Not a directory''"

text \<open>The sort key \<^verbatim>\<open>lambda p: (not p.is_dir(), p.name.lower())\<close>.\<close>

definition entry_key :: "path \<Rightarrow> bool \<times> string" where
  "entry_key p = (\<not> is_dir p, lower (name p))"

text \<open>
  The two statements that each generator runs on a listing: \<^verbatim>\<open>sorted\<close> (a stable
  sort, as \<open>sort_key\<close> is) and the filter.
\<close>

definition sorted_entries :: "path list \<Rightarrow> path list" where
  "sorted_entries es = sort_key entry_key es"

definition keep_entry :: "TreeConfig \<Rightarrow> path \<Rightarrow> bool" where
  "keep_entry cfg e = (\<not> should_ignore cfg (name e) \<and> (\<not> dirs_only cfg \<or> is_dir e))"

definition listed_entries :: "TreeConfig \<Rightarrow> path list \<Rightarrow> path list" where
  "listed_entries cfg es = filter (keep_entry cfg) (sorted_entries es)"

text \<open>\<^verbatim>\<open>self.config.max_depth is not None and depth > self.config.max_depth\<close>.\<close>

definition exceeds_depth :: "TreeConfig \<Rightarrow> nat \<Rightarrow> bool" where
  "exceeds_depth cfg depth = (case max_depth cfg of None \<Rightarrow> False | Some m \<Rightarrow> m < int depth)"

definition count_entry :: "TreeStats \<Rightarrow> path \<Rightarrow> TreeStats" where
  "count_entry st entry =
     (if is_dir entry then st\<lparr>total_dirs := total_dirs st + 1\<rparr>
      else st\<lparr>total_files := total_files st + 1\<rparr>)"

definition count_error :: "TreeStats \<Rightarrow> TreeStats" where
  "count_error st = st\<lparr>errors := errors st + 1\<rparr>"

section \<open>Entry annotations\<close>

definition get_entry_info :: "TreeConfig \<Rightarrow> path \<Rightarrow> string" where
  "get_entry_info cfg p =
     (let size_part =
            (if show_size cfg \<and> is_file p then
               (case stat p of Some s \<Rightarrow> [format_size (st_size s)] | None \<Rightarrow> [])
             else []);
          perm_part =
            (if show_permissions cfg then
               (case stat p of Some s \<Rightarrow> [''['' @ last3 (oct (st_mode s)) @ '']''] | None \<Rightarrow> [])
             else []);
          info_parts = size_part @ perm_part
      in if info_parts \<noteq> [] then '' '' @ join '' '' info_parts else [])"

section \<open>The text generator\<close>

text \<open>The drawing constants, as the bytes that the source file holds.\<close>

definition PIPE :: string where
  "PIPE = [CHR 0xC3, CHR 0xA2, CHR 0xE2, CHR 0x80, CHR 0x9D, CHR 0xE2, CHR 0x80, CHR 0x9A]"

definition DASH :: string where
  "DASH = [CHR 0xC3, CHR 0xA2, CHR 0xE2, CHR 0x80, CHR 0x9D, CHR 0xE2, CHR 0x82, CHR 0xAC]"

definition TEE :: string where
  "TEE = [CHR 0xC3, CHR 0xA2, CHR 0xE2, CHR 0x80, CHR 0x9D, CHR 0xC5, CHR 0x93] @ DASH @ DASH"

definition ELBOW :: string where
  "ELBOW = [CHR 0xC3, CHR 0xA2, CHR 0xE2, CHR 0x80, CHR 0x9D, CHR 0xE2, CHR 0x80, CHR 0x9D]
           @ DASH @ DASH"

definition SPACE :: string where
  "SPACE = ''    ''"

definition PIPE_SPACE :: string where
  "PIPE_SPACE = PIPE @ ''   ''"

lemma size_list_insort_key:
  "size_list f (insort_key k x xs) = size_list f (x # xs)"
  by (induction xs) auto

lemma size_list_sort_key: "size_list f (sort_key k xs) = size_list f xs"
  by (induction xs) (auto simp: size_list_insort_key)

lemma size_list_filter: "size_list f (filter P xs) \<le> size_list f xs"
  by (induction xs) auto

lemma size_list_listed_entries: "size_list f (listed_entries cfg es) \<le> size_list f es"
  unfolding listed_entries_def sorted_entries_def
  using size_list_filter [of f "keep_entry cfg" "sort_key entry_key es"]
  by (simp add: size_list_sort_key)

text \<open>
  \<open>generate_tree_text\<close> is the method of the source; \<open>text_entries\<close> is its loop
  \<^verbatim>\<open>for i, entry in enumerate(entries)\<close>, where the entry is the last one exactly when
  nothing follows it. The statistics are passed through and returned.
\<close>

function generate_tree_text ::
    "TreeConfig \<Rightarrow> TreeStats \<Rightarrow> path \<Rightarrow> string \<Rightarrow> nat \<Rightarrow> TreeStats \<times> string list"
  and text_entries ::
    "TreeConfig \<Rightarrow> TreeStats \<Rightarrow> path list \<Rightarrow> string \<Rightarrow> nat \<Rightarrow> TreeStats \<times> string list"
where
  "generate_tree_text cfg st directory prefix depth =
     (if exceeds_depth cfg depth then (st, [])
      else case directory of
        PDir n s es \<Rightarrow> text_entries cfg st (listed_entries cfg es) prefix depth
      | _ \<Rightarrow> (count_error st, []))"
| "text_entries cfg st [] prefix depth = (st, [])"
| "text_entries cfg st (entry # rest) prefix depth =
     (let is_last = (rest = []);
          st1 = count_entry st entry;
          connector = (if is_last then ELBOW else TEE);
          line = prefix @ connector @ '' '' @ name entry @ get_entry_info cfg entry;
          extension = (if is_last then SPACE else PIPE_SPACE);
          sub = (if is_dir entry then generate_tree_text cfg st1 entry (prefix @ extension) (depth + 1)
                 else (st1, []));
          more = text_entries cfg (fst sub) rest prefix depth
      in (fst more, line # snd sub @ snd more))"
  by pat_completeness auto
termination
proof (relation "measure (\<lambda>x. case x of
          Inl (cfg, st, d, prefix, depth) \<Rightarrow> 2 * size d
        | Inr (cfg, st, es, prefix, depth) \<Rightarrow> 2 * size_list size es + 1)", goal_cases)
  case 1
  show ?case by simp
next
  case (2 cfg st directory prefix depth n s es)
  then show ?case using size_list_listed_entries [of size cfg es] by simp
next
  case (3 cfg st entry rest prefix depth)
  show ?case by simp
next
  case (4 cfg st entry rest prefix depth)
  show ?case by simp
qed

declare generate_tree_text.simps(1) [simp del]

section \<open>The Markdown generator\<close>

function generate_tree_markdown ::
    "TreeConfig \<Rightarrow> TreeStats \<Rightarrow> path \<Rightarrow> nat \<Rightarrow> TreeStats \<times> string list"
  and markdown_entries ::
    "TreeConfig \<Rightarrow> TreeStats \<Rightarrow> path list \<Rightarrow> nat \<Rightarrow> TreeStats \<times> string list"
where
  "generate_tree_markdown cfg st directory depth =
     (if exceeds_depth cfg depth then (st, [])
      else case directory of
        PDir n s es \<Rightarrow> markdown_entries cfg st (listed_entries cfg es) depth
      | _ \<Rightarrow> (count_error st, []))"
| "markdown_entries cfg st [] depth = (st, [])"
| "markdown_entries cfg st (entry # rest) depth =
     (let indent = concat (replicate depth ''  '') in
      if is_dir entry then
        (let st1 = st\<lparr>total_dirs := total_dirs st + 1\<rparr>;
             line = indent @ ''- **'' @ name entry @ ''/**'';
             sub = generate_tree_markdown cfg st1 entry (depth + 1);
             more = markdown_entries cfg (fst sub) rest depth
         in (fst more, line # snd sub @ snd more))
      else
        (let st1 = st\<lparr>total_files := total_files st + 1\<rparr>;
             info = get_entry_info cfg entry;
             line = indent @ ''- '' @ name entry @ info;
             more = markdown_entries cfg st1 rest depth
         in (fst more, line # snd more)))"
  by pat_completeness auto
termination
proof (relation "measure (\<lambda>x. case x of
          Inl (cfg, st, d, depth) \<Rightarrow> 2 * size d
        | Inr (cfg, st, es, depth) \<Rightarrow> 2 * size_list size es + 1)", goal_cases)
  case 1
  show ?case by simp
next
  case (2 cfg st directory depth n s es)
  then show ?case using size_list_listed_entries [of size cfg es] by simp
next
  case (3 cfg st entry rest depth)
  show ?case by simp
next
  case (4 cfg st entry rest depth)
  show ?case by simp
next
  case (5 cfg st entry rest depth)
  show ?case by simp
qed

declare generate_tree_markdown.simps(1) [simp del]

section \<open>The JSON generator\<close>

text \<open>
  The dictionaries, lists, strings and integers that \<^verbatim>\<open>generate_tree_json\<close> builds. A
  dictionary keeps its keys in the order of their insertion.
\<close>

datatype json =
    JObj "(string \<times> json) list"
  | JArr "json list"
  | JStr string
  | JInt nat

text \<open>The dictionary \<^verbatim>\<open>file_info\<close> of a file entry.\<close>

definition file_info :: "TreeConfig \<Rightarrow> path \<Rightarrow> json" where
  "file_info cfg entry =
     JObj ([(''name'', JStr (name entry)), (''type'', JStr ''file'')] @
           (if show_size cfg then
              (case stat entry of Some s \<Rightarrow> [(''size'', JInt (st_size s))] | None \<Rightarrow> [])
            else []))"

function generate_tree_json ::
    "TreeConfig \<Rightarrow> TreeStats \<Rightarrow> path \<Rightarrow> nat \<Rightarrow> TreeStats \<times> json"
  and json_entries ::
    "TreeConfig \<Rightarrow> TreeStats \<Rightarrow> path list \<Rightarrow> nat \<Rightarrow> TreeStats \<times> json list"
where
  "generate_tree_json cfg st directory depth =
     (if exceeds_depth cfg depth then (st, JObj [])
      else case iterdir directory of
        Inr es \<Rightarrow>
          (let r = json_entries cfg st (listed_entries cfg es) depth
           in (fst r, JObj [(''name'', JStr (name directory)), (''type'', JStr ''directory''),
                            (''children'', JArr (snd r))]))
      | Inl e \<Rightarrow>
          (count_error st,
           JObj [(''name'', JStr (name directory)), (''type'', JStr ''directory''),
                 (''children'', JArr []), (''error'', JStr e)]))"
| "json_entries cfg st [] depth = (st, [])"
| "json_entries cfg st (entry # rest) depth =
     (if is_dir entry then
        (let st1 = st\<lparr>total_dirs := total_dirs st + 1\<rparr>;
             sub = generate_tree_json cfg st1 entry (depth + 1);
             more = json_entries cfg (fst sub) rest depth
         in (fst more, snd sub # snd more))
      else
        (let st1 = st\<lparr>total_files := total_files st + 1\<rparr>;
             more = json_entries cfg st1 rest depth
         in (fst more, file_info cfg entry # snd more)))"
  by pat_completeness auto
termination
proof (relation "measure (\<lambda>x. case x of
          Inl (cfg, st, d, depth) \<Rightarrow> 2 * size d
        | Inr (cfg, st, es, depth) \<Rightarrow> 2 * size_list size es + 1)", goal_cases)
  case 1
  show ?case by simp
next
  case (2 cfg st directory depth es)
  then show ?case using size_list_listed_entries [of size cfg es]
    by (cases directory) simp_all
next
  case (3 cfg st entry rest depth)
  show ?case by simp
next
  case (4 cfg st entry rest depth)
  show ?case by simp
next
  case (5 cfg st entry rest depth)
  show ?case by simp
qed

declare generate_tree_json.simps(1) [simp del]

section \<open>Rendering to a string\<close>

datatype py_error = FileNotFoundError | NotADirectoryError | TypeError

text \<open>
  What the generator takes from outside this file: \<^verbatim>\<open>json.dumps(_, indent=2)\<close>, and
  the fixed lines of the HTML page, which \<^verbatim>\<open>generate_tree_html\<close> builds from the name
  of the directory and the serialised tree.
\<close>

record library =
  dumps :: "json \<Rightarrow> string"
  html_page :: "string \<Rightarrow> string \<Rightarrow> string list"

text \<open>
  \<^verbatim>\<open>generate_tree_html(self, directory, tree_data, depth=0)\<close>: the parameter
  \<^verbatim>\<open>tree_data\<close> has no default, so a call that leaves it out (\<open>None\<close> here) raises
  \<^verbatim>\<open>TypeError\<close> before the body runs.
\<close>

definition generate_tree_html ::
    "library \<Rightarrow> path \<Rightarrow> json option \<Rightarrow> nat \<Rightarrow> py_error + string list" where
  "generate_tree_html lib directory tree_data depth =
     (case tree_data of
        None \<Rightarrow> Inl TypeError
      | Some td \<Rightarrow> Inr (if depth = 0 then html_page lib (name directory) (dumps lib td) else []))"

definition newline :: string where
  "newline = [CHR 0x0A]"

text \<open>
  \<^verbatim>\<open>generate_to_string\<close>; the argument is what the path names, if anything. The
  statistics after the call come with the result or the exception.
\<close>

definition generate_to_string ::
    "library \<Rightarrow> TreeConfig \<Rightarrow> OutputFormat \<Rightarrow> TreeStats \<Rightarrow> path option
       \<Rightarrow> TreeStats \<times> (py_error + string)" where
  "generate_to_string lib cfg output_format st directory =
     (case directory of
        None \<Rightarrow> (st, Inl FileNotFoundError)
      | Some dir_path \<Rightarrow>
          if \<not> is_dir dir_path then (st, Inl NotADirectoryError)
          else (case output_format of
            TEXT \<Rightarrow>
              (let r = generate_tree_text cfg st dir_path [] 0
               in (fst r, Inr (join newline (name dir_path # snd r))))
          | MARKDOWN \<Rightarrow>
              (let r = generate_tree_markdown cfg st dir_path 0
               in (fst r, Inr (join newline ((''# '' @ name dir_path) # [] # snd r))))
          | HTML \<Rightarrow>
              (case generate_tree_html lib dir_path None 0 of
                 Inl e \<Rightarrow> (st, Inl e)
               | Inr lines \<Rightarrow> (st, Inr (join newline lines)))
          | JSON \<Rightarrow>
              (let r = generate_tree_json cfg st dir_path 0
               in (fst r, Inr (dumps lib (snd r))))))"

section \<open>The canonical tree of the specification\<close>

text \<open>
  The \<open>Node\<close> of the specification: a directory with its children, a file with its
  size, a directory that failed to list with the message. Each node also carries the
  mode bits that the permission suffix of the text formats is made of.
\<close>

datatype node =
    Directory string "nat option" "node list"
  | File string "nat option" "nat option"
  | ErrorNode string "nat option" string



fun children :: "node \<Rightarrow> node list" where
  "children (Directory nm mode cs) = cs"
| "children (File nm sz mode) = []"
| "children (ErrorNode nm mode msg) = []"

definition node_size :: "TreeConfig \<Rightarrow> path \<Rightarrow> nat option" where
  "node_size cfg e = (if show_size cfg \<and> is_file e then map_option st_size (stat e) else None)"

definition node_mode :: "TreeConfig \<Rightarrow> path \<Rightarrow> nat option" where
  "node_mode cfg e = (if show_permissions cfg then map_option st_mode (stat e) else None)"

definition within_depth :: "TreeConfig \<Rightarrow> nat \<Rightarrow> bool" where
  "within_depth cfg depth = (case max_depth cfg of None \<Rightarrow> True | Some m \<Rightarrow> int depth \<le> m)"

text \<open>
  \<open>walk\<close> as section 4.2 of the specification words it, over the listing that the
  three generators compute: a failed listing counts an error and gives an
  \<open>ErrorNode\<close>; a surviving directory is counted and walked one level down when that
  level is within \<open>max_depth\<close>, and is a childless \<open>Directory\<close> otherwise; a surviving
  file is counted and gives a \<open>File\<close>.
\<close>

function walk :: "TreeConfig \<Rightarrow> TreeStats \<Rightarrow> path \<Rightarrow> nat \<Rightarrow> TreeStats \<times> node"
  and walk_entries ::
    "TreeConfig \<Rightarrow> TreeStats \<Rightarrow> path list \<Rightarrow> nat \<Rightarrow> TreeStats \<times> node list"
where
  "walk cfg st directory depth =
     (case iterdir directory of
        Inl e \<Rightarrow> (count_error st, ErrorNode (name directory) (node_mode cfg directory) e)
      | Inr es \<Rightarrow>
          (let r = walk_entries cfg st (listed_entries cfg es) depth
           in (fst r, Directory (name directory) (node_mode cfg directory) (snd r))))"
| "walk_entries cfg st [] depth = (st, [])"
| "walk_entries cfg st (entry # rest) depth =
     (if is_dir entry then
        (let st1 = st\<lparr>total_dirs := total_dirs st + 1\<rparr>;
             sub = (if within_depth cfg (depth + 1) then walk cfg st1 entry (depth + 1)
                    else (st1, Directory (name entry) (node_mode cfg entry) []));
             more = walk_entries cfg (fst sub) rest depth
         in (fst more, snd sub # snd more))
      else
        (let st1 = st\<lparr>total_files := total_files st + 1\<rparr>;
             more = walk_entries cfg st1 rest depth
         in (fst more,
             File (name entry) (node_size cfg entry) (node_mode cfg entry) # snd more)))"
  by pat_completeness auto
termination
proof (relation "measure (\<lambda>x. case x of
          Inl (cfg, st, d, depth) \<Rightarrow> 2 * size d
        | Inr (cfg, st, es, depth) \<Rightarrow> 2 * size_list size es + 1)", goal_cases)
  case 1
  show ?case by simp
next
  case (2 cfg st directory depth es)
  then show ?case using size_list_listed_entries [of size cfg es]
    by (cases directory) simp_all
next
  case (3 cfg st entry rest depth)
  show ?case by simp
next
  case (4 cfg st entry rest depth)
  show ?case by simp
next
  case (5 cfg st entry rest depth)
  show ?case by simp
qed

declare walk.simps(1) [simp del]

subsection \<open>The renderers as functions of the tree\<close>

definition node_info :: "nat option \<Rightarrow> nat option \<Rightarrow> string" where
  "node_info sz mode =
     (let info_parts =
            (case sz of Some z \<Rightarrow> [format_size z] | None \<Rightarrow> []) @
            (case mode of Some m \<Rightarrow> [''['' @ last3 (oct m) @ '']''] | None \<Rightarrow> [])
      in if info_parts \<noteq> [] then '' '' @ join '' '' info_parts else [])"

fun text_of_node :: "string \<Rightarrow> bool \<Rightarrow> node \<Rightarrow> string list"
  and text_of_nodes :: "string \<Rightarrow> node list \<Rightarrow> string list"
where
  "text_of_node prefix is_last (Directory nm mode cs) =
     (prefix @ (if is_last then ELBOW else TEE) @ '' '' @ nm @ node_info None mode)
       # text_of_nodes (prefix @ (if is_last then SPACE else PIPE_SPACE)) cs"
| "text_of_node prefix is_last (File nm sz mode) =
     [prefix @ (if is_last then ELBOW else TEE) @ '' '' @ nm @ node_info sz mode]"
| "text_of_node prefix is_last (ErrorNode nm mode msg) =
     [prefix @ (if is_last then ELBOW else TEE) @ '' '' @ nm @ node_info None mode]"
| "text_of_nodes prefix [] = []"
| "text_of_nodes prefix (n # ns) = text_of_node prefix (ns = []) n @ text_of_nodes prefix ns"

fun markdown_of_node :: "nat \<Rightarrow> node \<Rightarrow> string list"
  and markdown_of_nodes :: "nat \<Rightarrow> node list \<Rightarrow> string list"
where
  "markdown_of_node depth (Directory nm mode cs) =
     (concat (replicate depth ''  '') @ ''- **'' @ nm @ ''/**'')
       # markdown_of_nodes (depth + 1) cs"
| "markdown_of_node depth (File nm sz mode) =
     [concat (replicate depth ''  '') @ ''- '' @ nm @ node_info sz mode]"
| "markdown_of_node depth (ErrorNode nm mode msg) =
     [concat (replicate depth ''  '') @ ''- **'' @ nm @ ''/**'']"
| "markdown_of_nodes depth [] = []"
| "markdown_of_nodes depth (n # ns) = markdown_of_node depth n @ markdown_of_nodes depth ns"


subsection \<open>What is read off a tree and off the JSON output\<close>

text \<open>The names of all nodes of a tree, and of all nodes below its root.\<close>

fun node_names :: "node \<Rightarrow> string list" where
  "node_names (Directory nm mode cs) = nm # concat (map node_names cs)"
| "node_names (File nm sz mode) = [nm]"
| "node_names (ErrorNode nm mode msg) = [nm]"

definition names_below :: "node \<Rightarrow> string list" where
  "names_below t = concat (map node_names (children t))"

text \<open>A line shows a name when the name is a contiguous part of it.\<close>

definition shows_name :: "string \<Rightarrow> string \<Rightarrow> bool" where
  "shows_name line n =
     list_ex (\<lambda>k. take (length n) (drop k line) = n) [0..<Suc (length line)]"

text \<open>
  The children of a dictionary, the names of all dictionaries inside a JSON value, and
  the number of dictionaries with a given \<^verbatim>\<open>"type"\<close>.
\<close>

fun json_children :: "json \<Rightarrow> json list" where
  "json_children (JObj kvs) = (case map_of kvs ''children'' of Some (JArr cs) \<Rightarrow> cs | _ \<Rightarrow> [])"
| "json_children (JArr js) = []"
| "json_children (JStr s) = []"
| "json_children (JInt n) = []"

fun json_names :: "json \<Rightarrow> string list" where
  "json_names (JObj kvs) =
     (case map_of kvs ''name'' of Some (JStr n) \<Rightarrow> [n] | _ \<Rightarrow> []) @
     concat (map (\<lambda>kv. json_names (snd kv)) kvs)"
| "json_names (JArr js) = concat (map json_names js)"
| "json_names (JStr s) = []"
| "json_names (JInt n) = []"

fun count_type :: "string \<Rightarrow> json \<Rightarrow> nat" where
  "count_type t (JObj kvs) =
     (if map_of kvs ''type'' = Some (JStr t) then 1 else 0) +
     sum_list (map (\<lambda>kv. count_type t (snd kv)) kvs)"
| "count_type t (JArr js) = sum_list (map (count_type t) js)"
| "count_type t (JStr s) = 0"
| "count_type t (JInt n) = 0"



section \<open>The ignore rule in the words of the specification\<close>




section \<open>Further notions that the properties use\<close>


text \<open>The number of directories of a tree that failed to list.\<close>

fun error_nodes :: "node \<Rightarrow> nat" where
  "error_nodes (Directory nm mode cs) = sum_list (map error_nodes cs)"
| "error_nodes (File nm sz mode) = 0"
| "error_nodes (ErrorNode nm mode msg) = 1"

text \<open>
  The number of divisions that the loop of \<^verbatim>\<open>_format_size\<close> performs on a value when
  \<open>n\<close> units remain before the last one, and the unit labels in their order.
\<close>

fun unit_steps :: "rat \<Rightarrow> nat \<Rightarrow> nat" where
  "unit_steps x 0 = 0"
| "unit_steps x (Suc n) = (if x < 1024 then 0 else Suc (unit_steps (x / 1024) n))"

definition unit_index :: "nat \<Rightarrow> nat" where
  "unit_index sz = unit_steps (of_nat sz) 5"

definition UNITS :: "string list" where
  "UNITS = [''B'', ''KB'', ''MB'', ''GB'', ''TB'', ''PB'']"

definition DIGITS :: "char set" where
  "DIGITS = set ''0123456789''"

section \<open>Properties: the statistics\<close>

lemma skipped_count_entry [simp]: "skipped (count_entry st e) = skipped st"
  by (simp add: count_entry_def)

lemma skipped_count_error [simp]: "skipped (count_error st) = skipped st"
  by (simp add: count_error_def)

lemma skipped_text:
  "skipped (fst (generate_tree_text cfg st d prefix depth)) = skipped st"
  "skipped (fst (text_entries cfg st es prefix depth)) = skipped st"
  by (induction cfg st d prefix depth and cfg st es prefix depth
      rule: generate_tree_text_text_entries.induct)
     (auto simp: Let_def generate_tree_text.simps(1) generate_tree_markdown.simps(1) split: path.splits)

lemma skipped_markdown:
  "skipped (fst (generate_tree_markdown cfg st d depth)) = skipped st"
  "skipped (fst (markdown_entries cfg st es depth)) = skipped st"
  by (induction cfg st d depth and cfg st es depth
      rule: generate_tree_markdown_markdown_entries.induct)
     (auto simp: Let_def generate_tree_text.simps(1) generate_tree_markdown.simps(1) split: path.splits)

lemma skipped_json:
  "skipped (fst (generate_tree_json cfg st d depth)) = skipped st"
  "skipped (fst (json_entries cfg st es depth)) = skipped st"
  by (induction cfg st d depth and cfg st es depth
      rule: generate_tree_json_json_entries.induct)
     (auto simp: Let_def generate_tree_json.simps(1) split: sum.splits)

section \<open>Properties: the generators and the canonical tree\<close>

lemma exceeds_depth_iff: "exceeds_depth cfg depth = (\<not> within_depth cfg depth)"
  by (auto simp: exceeds_depth_def within_depth_def split: option.splits)

lemma get_entry_info_node:
  "get_entry_info cfg e = node_info (node_size cfg e) (node_mode cfg e)"
  by (cases "stat e") (simp_all add: get_entry_info_def node_info_def node_size_def node_mode_def)

lemma node_size_dir: "is_dir e \<Longrightarrow> node_size cfg e = None"
  by (cases e) (simp_all add: node_size_def)



lemma walk_shape:
  "snd (walk cfg st d depth) =
     (case iterdir d of
        Inl e \<Rightarrow> ErrorNode (name d) (node_mode cfg d) e
      | Inr es \<Rightarrow> Directory (name d) (node_mode cfg d)
                    (snd (walk_entries cfg st (listed_entries cfg es) depth)))"
  by (simp add: walk.simps(1) Let_def split: sum.splits)

lemma walk_entries_length: "length (snd (walk_entries cfg st es depth)) = length es"
proof (induction es arbitrary: st)
  case Nil
  show ?case by simp
next
  case (Cons e es)
  then show ?case by (simp add: Let_def)
qed

lemma walk_entries_Nil_iff: "(snd (walk_entries cfg st es depth) = []) = (es = [])"
  using walk_entries_length [of cfg st es depth] by (metis length_0_conv)

lemma text_of_walk_dir:
  "text_of_node prefix is_last (snd (walk cfg st d depth)) =
     (prefix @ (if is_last then ELBOW else TEE) @ '' '' @ name d @ node_info None (node_mode cfg d))
       # text_of_nodes (prefix @ (if is_last then SPACE else PIPE_SPACE))
           (children (snd (walk cfg st d depth)))"
  by (simp add: walk_shape split: sum.splits)

lemma text_projection:
  "\<not> exceeds_depth cfg depth \<Longrightarrow>
     generate_tree_text cfg st d prefix depth =
       (fst (walk cfg st d depth), text_of_nodes prefix (children (snd (walk cfg st d depth))))"
  "text_entries cfg st es prefix depth =
       (fst (walk_entries cfg st es depth), text_of_nodes prefix (snd (walk_entries cfg st es depth)))"
proof (induction cfg st d prefix depth and cfg st es prefix depth
      rule: generate_tree_text_text_entries.induct)
  case (1 cfg st directory prefix depth)
  then show ?case
    by (cases directory)
       (simp_all add: generate_tree_text.simps(1) walk.simps(1) Let_def count_error_def)
next
  case (2 cfg st prefix depth)
  show ?case by simp
next
  case (3 cfg st entry rest prefix depth)
  show ?case
  proof (cases "is_dir entry")
    case False
    with 3 show ?thesis
      by (simp add: Let_def count_entry_def get_entry_info_node walk_entries_Nil_iff)
  next
    case True
    show ?thesis
    proof (cases "exceeds_depth cfg (depth + 1)")
      case ex: True
      with True 3 show ?thesis
        by (simp add: Let_def count_entry_def get_entry_info_node node_size_dir
              exceeds_depth_iff generate_tree_text.simps(1) walk_entries_Nil_iff)
    next
      case ex: False
      with True 3 show ?thesis
        by (simp add: Let_def count_entry_def get_entry_info_node node_size_dir
              exceeds_depth_iff text_of_walk_dir walk_entries_Nil_iff)
    qed
  qed
qed


lemma markdown_of_walk_dir:
  "markdown_of_node depth (snd (walk cfg st d dp)) =
     (concat (replicate depth ''  '') @ ''- **'' @ name d @ ''/**'')
       # markdown_of_nodes (depth + 1) (children (snd (walk cfg st d dp)))"
  by (simp add: walk_shape split: sum.splits)

lemma markdown_projection:
  "\<not> exceeds_depth cfg depth \<Longrightarrow>
     generate_tree_markdown cfg st d depth =
       (fst (walk cfg st d depth), markdown_of_nodes depth (children (snd (walk cfg st d depth))))"
  "markdown_entries cfg st es depth =
       (fst (walk_entries cfg st es depth),
        markdown_of_nodes depth (snd (walk_entries cfg st es depth)))"
proof (induction cfg st d depth and cfg st es depth
      rule: generate_tree_markdown_markdown_entries.induct)
  case (1 cfg st directory depth)
  then show ?case
    by (cases directory)
       (simp_all add: generate_tree_markdown.simps(1) walk.simps(1) Let_def count_error_def)
next
  case (2 cfg st depth)
  show ?case by simp
next
  case (3 cfg st entry rest depth)
  show ?case
  proof (cases "is_dir entry")
    case False
    with 3 show ?thesis
      by (simp add: Let_def get_entry_info_node)
  next
    case True
    show ?thesis
    proof (cases "exceeds_depth cfg (depth + 1)")
      case ex: True
      with True 3 show ?thesis
        by (simp add: Let_def exceeds_depth_iff generate_tree_markdown.simps(1))
    next
      case ex: False
      with True 3 show ?thesis
        by (simp add: Let_def exceeds_depth_iff markdown_of_walk_dir)
    qed
  qed
qed

lemma json_stats:
  "fst (generate_tree_json cfg st d depth) =
     (if exceeds_depth cfg depth then st else fst (walk cfg st d depth))"
  "fst (json_entries cfg st es depth) = fst (walk_entries cfg st es depth)"
proof (induction cfg st d depth and cfg st es depth
      rule: generate_tree_json_json_entries.induct)
  case (1 cfg st directory depth)
  then show ?case
    by (simp add: generate_tree_json.simps(1) walk.simps(1) Let_def split: sum.splits)
next
  case (2 cfg st depth)
  show ?case by simp
next
  case (3 cfg st entry rest depth)
  then show ?case
    by (simp add: Let_def exceeds_depth_iff)
qed

lemma never_exceeds: "max_depth cfg = None \<Longrightarrow> \<not> exceeds_depth cfg depth"
  by (simp add: exceeds_depth_def)



section \<open>Properties: the ignore filter\<close>

text \<open>What \<open>startswith\<close> and \<open>endswith\<close> mean.\<close>

lemma startswith_iff: "startswith s p = (\<exists>u. s = p @ u)"
  unfolding startswith_def
  by (metis append_eq_conv_conj append_take_drop_id)










section \<open>Properties: the counter of skipped entries\<close>

text \<open>
  Claim C10. No operation changes \<open>skipped\<close>: each generator and
  \<open>generate_to_string\<close> return it as they received it, so after a run that started
  from the initial statistics it is still 0, whatever was filtered out.
\<close>

theorem skipped_never_incremented:
  "skipped (fst (generate_tree_text cfg st d prefix depth)) = skipped st \<and>
   skipped (fst (generate_tree_markdown cfg st d depth)) = skipped st \<and>
   skipped (fst (generate_tree_json cfg st d depth)) = skipped st \<and>
   skipped (fst (generate_to_string lib cfg fmt st target)) = skipped st \<and>
   skipped (fst (generate_to_string lib cfg fmt TreeStats_init target)) = 0"
  by (simp add: skipped_text skipped_markdown skipped_json generate_to_string_def Let_def
        TreeStats_init_def split: option.splits OutputFormat.splits sum.splits)

theorem skipped_never_incremented_witness:
  "skipped (fst (generate_to_string \<lparr>dumps = (\<lambda>j. []), html_page = (\<lambda>n t. [])\<rparr>
      (TreeConfig_default\<lparr>dirs_only := True\<rparr>) TEXT TreeStats_init
      (Some (PDir ''root'' None [PFile ''a.txt'' None, PDir ''.git'' None [], PDir ''src'' None []])))) = 0"
  using skipped_never_incremented
    [of "TreeConfig_default\<lparr>dirs_only := True\<rparr>" TreeStats_init
        "PDir ''root'' None []" "[]" 0
        "\<lparr>dumps = (\<lambda>j. []), html_page = (\<lambda>n t. [])\<rparr>" TEXT
        "Some (PDir ''root'' None [PFile ''a.txt'' None, PDir ''.git'' None [], PDir ''src'' None []])"]
  by simp

section \<open>Properties: the JSON output and the statistics\<close>

lemma count_type_file_info:
  "count_type ''file'' (file_info cfg e) = 1"
  "count_type ''directory'' (file_info cfg e) = 0"
  by (cases "show_size cfg"; cases "stat e"; simp add: file_info_def)+

lemma json_file_count:
  "total_files (fst (generate_tree_json cfg st d depth)) =
     total_files st + count_type ''file'' (snd (generate_tree_json cfg st d depth))"
  "total_files (fst (json_entries cfg st es depth)) =
     total_files st + sum_list (map (count_type ''file'') (snd (json_entries cfg st es depth)))"
proof (induction cfg st d depth and cfg st es depth
      rule: generate_tree_json_json_entries.induct)
  case (1 cfg st directory depth)
  then show ?case
    by (simp add: generate_tree_json.simps(1) Let_def count_error_def split: sum.splits)
next
  case (2 cfg st depth)
  show ?case by simp
next
  case (3 cfg st entry rest depth)
  then show ?case
    by (simp add: Let_def count_type_file_info)
qed

lemma json_dir_count:
  "max_depth cfg = None \<Longrightarrow>
   total_dirs (fst (generate_tree_json cfg st d depth)) + 1 =
     total_dirs st + count_type ''directory'' (snd (generate_tree_json cfg st d depth))"
  "max_depth cfg = None \<Longrightarrow>
   total_dirs (fst (json_entries cfg st es depth)) =
     total_dirs st + sum_list (map (count_type ''directory'') (snd (json_entries cfg st es depth)))"
proof (induction cfg st d depth and cfg st es depth
      rule: generate_tree_json_json_entries.induct)
  case (1 cfg st directory depth)
  then show ?case
    by (simp add: generate_tree_json.simps(1) Let_def count_error_def never_exceeds
          split: sum.splits)
next
  case (2 cfg st depth)
  show ?case by simp
next
  case (3 cfg st entry rest depth)
  then show ?case
    by (simp add: Let_def count_type_file_info)
qed

text \<open>
  Claim C7, amended. After one run from the initial statistics, the number of nodes of
  type \<^verbatim>\<open>"file"\<close> in the JSON output equals \<open>total_files\<close>; and when \<open>max_depth\<close> is
  unset, the number of nodes of type \<^verbatim>\<open>"directory"\<close> is \<open>total_dirs\<close> plus one, the
  root, which is a node of the output and is never counted.
\<close>

theorem json_counts_match_stats:
  "total_files (fst (generate_tree_json cfg TreeStats_init d 0)) =
     count_type ''file'' (snd (generate_tree_json cfg TreeStats_init d 0)) \<and>
   (max_depth cfg = None \<longrightarrow>
      total_dirs (fst (generate_tree_json cfg TreeStats_init d 0)) + 1 =
        count_type ''directory'' (snd (generate_tree_json cfg TreeStats_init d 0)))"
  using json_file_count(1) [of cfg TreeStats_init d 0] json_dir_count(1) [of cfg TreeStats_init d 0]
  by (simp add: TreeStats_init_def)

theorem json_counts_match_stats_witness:
  "total_files (fst (generate_tree_json TreeConfig_default TreeStats_init
      (PDir ''root'' None [PFile ''b.txt'' None, PDir ''src'' None [PFile ''a.py'' None]]) 0)) = 2 \<and>
   count_type ''file'' (snd (generate_tree_json TreeConfig_default TreeStats_init
      (PDir ''root'' None [PFile ''b.txt'' None, PDir ''src'' None [PFile ''a.py'' None]]) 0)) = 2 \<and>
   total_dirs (fst (generate_tree_json TreeConfig_default TreeStats_init
      (PDir ''root'' None [PFile ''b.txt'' None, PDir ''src'' None [PFile ''a.py'' None]]) 0)) = 1 \<and>
   count_type ''directory'' (snd (generate_tree_json TreeConfig_default TreeStats_init
      (PDir ''root'' None [PFile ''b.txt'' None, PDir ''src'' None [PFile ''a.py'' None]]) 0)) = 2"
proof -
  let ?d = "PDir ''root'' None [PFile ''b.txt'' None, PDir ''src'' None [PFile ''a.py'' None]]"
  have f: "total_files (fst (generate_tree_json TreeConfig_default TreeStats_init ?d 0)) = 2"
    by code_simp
  have d: "total_dirs (fst (generate_tree_json TreeConfig_default TreeStats_init ?d 0)) = 1"
    by code_simp
  have n: "max_depth TreeConfig_default = None" by (simp add: TreeConfig_default_def)
  from f d n json_counts_match_stats [of TreeConfig_default ?d] show ?thesis by simp
qed

text \<open>
  The claim as stated fails on an empty root directory: the output is one node of type
  \<^verbatim>\<open>"directory"\<close> and \<open>total_dirs\<close> is 0.
\<close>

theorem json_root_not_counted_counterexample:
  "count_type ''directory''
     (snd (generate_tree_json TreeConfig_default TreeStats_init (PDir ''root'' None []) 0)) = 1 \<and>
   total_dirs (fst (generate_tree_json TreeConfig_default TreeStats_init (PDir ''root'' None []) 0)) = 0"
  by code_simp

section \<open>Properties: rendering to a string\<close>

text \<open>
  For the formats other than HTML \<open>generate_to_string\<close> returns a string for every
  directory, and a path that names nothing or a file fails with the statistics as they
  were.
\<close>

lemma generate_to_string_other_formats_return:
  assumes "is_dir d" and "fmt \<noteq> HTML"
  shows "\<exists>out. snd (generate_to_string lib cfg fmt st (Some d)) = Inr out"
  using assms by (cases fmt) (simp_all add: generate_to_string_def Let_def)

lemma generate_to_string_bad_root:
  "generate_to_string lib cfg fmt st None = (st, Inl FileNotFoundError)"
  "\<not> is_dir d \<Longrightarrow> generate_to_string lib cfg fmt st (Some d) = (st, Inl NotADirectoryError)"
  by (simp_all add: generate_to_string_def)

text \<open>
  Claim C8 fails for HTML: \<open>generate_to_string\<close> calls \<open>generate_tree_html\<close> without the
  tree data, so for every directory the call raises \<^verbatim>\<open>TypeError\<close> and no string is
  returned.
\<close>

theorem generate_to_string_html_raises:
  "generate_to_string lib cfg HTML st (Some (PDir n s es)) = (st, Inl TypeError)"
  by (simp add: generate_to_string_def generate_tree_html_def)

section \<open>Properties: the depth bound\<close>

text \<open>
  Claim C2 fails: with \<open>max_depth = 1\<close> the text and Markdown outputs of the tree
  \<^verbatim>\<open>tmp/level1/level2/level3\<close> show \<^verbatim>\<open>level2\<close>, which is at depth 2, and the JSON
  output shows a file at depth 2. The guard of each generator compares the depth of
  the directory being listed, so the entries of a directory at depth \<open>max_depth\<close> are
  still rendered.
\<close>

theorem max_depth_one_shows_depth_two:
  "snd (generate_tree_text (TreeConfig_default\<lparr>max_depth := Some 1\<rparr>) TreeStats_init
     (PDir ''tmp'' None [PDir ''level1'' None [PDir ''level2'' None [PDir ''level3'' None []]]])
     [] 0) = [ELBOW @ '' level1'', SPACE @ ELBOW @ '' level2''] \<and>
   snd (generate_tree_markdown (TreeConfig_default\<lparr>max_depth := Some 1\<rparr>) TreeStats_init
     (PDir ''tmp'' None [PDir ''level1'' None [PDir ''level2'' None [PDir ''level3'' None []]]])
     0) = [''- **level1/**'', ''  - **level2/**''] \<and>
   snd (generate_tree_json (TreeConfig_default\<lparr>max_depth := Some 1\<rparr>) TreeStats_init
     (PDir ''tmp'' None [PDir ''level1'' None [PFile ''deep.txt'' None]]) 0) =
     JObj [(''name'', JStr ''tmp''), (''type'', JStr ''directory''),
           (''children'', JArr [JObj [(''name'', JStr ''level1''), (''type'', JStr ''directory''),
              (''children'', JArr [JObj [(''name'', JStr ''deep.txt''), (''type'', JStr ''file'')]])]])]"
  by code_simp

section \<open>Properties: ignored names are never rendered\<close>

lemma shows_name_intro: "shows_name (p @ n @ i) n"
  unfolding shows_name_def list_ex_iff
  by (rule bexI [of _ "length p"]) simp_all

lemma shows_name_text_line: "shows_name (p @ c @ CHR '' '' # n @ i) n"
  using shows_name_intro [of "p @ c @ '' ''" n i] by simp

lemma shows_name_markdown_line: "shows_name (p @ CHR ''-'' # CHR '' '' # c @ n @ i) n"
  using shows_name_intro [of "p @ ''- '' @ c" n i] by simp

lemma text_lines_show_names:
  "list_all2 shows_name (text_of_node prefix is_last n) (node_names n)"
  "list_all2 shows_name (text_of_nodes prefix ns) (concat (map node_names ns))"
  by (induction prefix is_last n and prefix ns rule: text_of_node_text_of_nodes.induct)
     (simp_all add: shows_name_text_line list_all2_appendI)

lemma markdown_lines_show_names:
  "list_all2 shows_name (markdown_of_node depth n) (node_names n)"
  "list_all2 shows_name (markdown_of_nodes depth ns) (concat (map node_names ns))"
proof (induction depth n and depth ns rule: markdown_of_node_markdown_of_nodes.induct)
  case (1 depth nm mode cs)
  then show ?case using shows_name_markdown_line [of _ "''**''" nm "''/**''"] by simp
next
  case (2 depth nm sz mode)
  then show ?case using shows_name_markdown_line [of _ "[]" nm] by simp
next
  case (3 depth nm mode msg)
  then show ?case using shows_name_markdown_line [of _ "''**''" nm "''/**''"] by simp
next
  case (4 depth)
  show ?case by simp
next
  case (5 depth n ns)
  then show ?case by (simp add: list_all2_appendI)
qed

lemma node_names_walk:
  "node_names (snd (walk cfg st d depth)) = name d # names_below (snd (walk cfg st d depth))"
  by (simp add: walk_shape names_below_def split: sum.splits)

lemma listed_entries_kept: "e \<in> set (listed_entries cfg es) \<Longrightarrow> keep_entry cfg e"
  by (simp add: listed_entries_def)

lemma keep_entry_not_ignored: "keep_entry cfg e \<Longrightarrow> \<not> should_ignore cfg (name e)"
  by (simp add: keep_entry_def)

lemma walk_names_subset:
  "set (node_names (snd (walk cfg st d depth))) \<subseteq> insert (name d) {n. \<not> should_ignore cfg n}"
  "(\<forall>e \<in> set es. keep_entry cfg e) \<longrightarrow>
     set (concat (map node_names (snd (walk_entries cfg st es depth)))) \<subseteq> {n. \<not> should_ignore cfg n}"
proof (induction cfg st d depth and cfg st es depth rule: walk_walk_entries.induct)
  case (1 cfg st directory depth)
  then show ?case
    by (cases "iterdir directory") (auto simp: walk_shape listed_entries_kept)
next
  case (2 cfg st depth)
  show ?case by simp
next
  case (3 cfg st entry rest depth)
  then show ?case
    apply (auto simp: Let_def)
    apply (drule (1) subsetD)
    apply (auto dest: keep_entry_not_ignored)
    done
qed

lemma walk_names_kept:
  "n \<in> set (names_below (snd (walk cfg st d depth))) \<Longrightarrow> \<not> should_ignore cfg n"
proof (cases "iterdir d")
  case (Inl m)
  assume "n \<in> set (names_below (snd (walk cfg st d depth)))"
  with Inl show ?thesis by (simp add: walk_shape names_below_def)
next
  case (Inr es)
  assume "n \<in> set (names_below (snd (walk cfg st d depth)))"
  with Inr have "n \<in> set (concat (map node_names
      (snd (walk_entries cfg st (listed_entries cfg es) depth))))"
    by (simp add: walk_shape names_below_def)
  with walk_names_subset(2) [of "listed_entries cfg es" cfg st depth] listed_entries_kept [of _ cfg es]
  show ?thesis by blast
qed


lemma json_names_file_info: "json_names (file_info cfg e) = [name e]"
  by (cases "show_size cfg"; cases "stat e"; simp add: file_info_def)

lemma json_names_subset:
  "set (json_names (snd (generate_tree_json cfg st d depth)))
     \<subseteq> insert (name d) {n. \<not> should_ignore cfg n}"
  "(\<forall>e \<in> set es. keep_entry cfg e) \<longrightarrow>
     set (concat (map json_names (snd (json_entries cfg st es depth))))
       \<subseteq> {n. \<not> should_ignore cfg n}"
proof (induction cfg st d depth and cfg st es depth rule: generate_tree_json_json_entries.induct)
  case (1 cfg st directory depth)
  then show ?case
    by (cases "iterdir directory")
       (auto simp: generate_tree_json.simps(1) Let_def listed_entries_kept)
next
  case (2 cfg st depth)
  show ?case by simp
next
  case (3 cfg st entry rest depth)
  then show ?case
    apply (auto simp: Let_def json_names_file_info keep_entry_not_ignored)
    apply (drule (1) subsetD)
    apply (auto dest: keep_entry_not_ignored)
    done
qed

lemma json_children_names_kept:
  "n \<in> set (concat (map json_names (json_children (snd (generate_tree_json cfg st d depth)))))
     \<Longrightarrow> \<not> should_ignore cfg n"
proof (cases "iterdir d")
  case (Inl m)
  assume "n \<in> set (concat (map json_names (json_children (snd (generate_tree_json cfg st d depth)))))"
  with Inl show ?thesis by (simp add: generate_tree_json.simps(1) split: if_splits)
next
  case (Inr es)
  assume "n \<in> set (concat (map json_names (json_children (snd (generate_tree_json cfg st d depth)))))"
  with Inr have "n \<in> set (concat (map json_names
      (snd (json_entries cfg st (listed_entries cfg es) depth))))"
    by (simp add: generate_tree_json.simps(1) Let_def split: if_splits)
  with json_names_subset(2) [of "listed_entries cfg es" cfg st depth] listed_entries_kept [of _ cfg es]
  show ?thesis by blast
qed

lemma exceeds_depth_no_lines:
  "exceeds_depth cfg depth \<Longrightarrow> snd (generate_tree_text cfg st d prefix depth) = []"
  "exceeds_depth cfg depth \<Longrightarrow> snd (generate_tree_markdown cfg st d depth) = []"
  by (simp_all add: generate_tree_text.simps(1) generate_tree_markdown.simps(1))

text \<open>
  Claim C9, amended. For every configuration, no entry below the root that any format
  renders has a name that \<open>should_ignore\<close> accepts: the lines of the text and of the
  Markdown output show, one for one, the names of the nodes below the root of the
  canonical tree, none of which is ignored, and no node below the root of the JSON
  output has an ignored name. The name of the root itself is not tested.
\<close>

theorem rendered_names_not_ignored:
  "(\<forall>n \<in> set (names_below (snd (walk cfg st d depth))). \<not> should_ignore cfg n) \<and>
   (if exceeds_depth cfg depth
    then snd (generate_tree_text cfg st d prefix depth) = [] \<and>
         snd (generate_tree_markdown cfg st d depth) = []
    else list_all2 shows_name (snd (generate_tree_text cfg st d prefix depth))
           (names_below (snd (walk cfg st d depth))) \<and>
         list_all2 shows_name (snd (generate_tree_markdown cfg st d depth))
           (names_below (snd (walk cfg st d depth)))) \<and>
   (\<forall>n \<in> set (concat (map json_names
        (json_children (snd (generate_tree_json cfg st d depth))))). \<not> should_ignore cfg n)"
proof (intro conjI ballI)
  fix n assume "n \<in> set (names_below (snd (walk cfg st d depth)))"
  then show "\<not> should_ignore cfg n" by (rule walk_names_kept)
next
  show "if exceeds_depth cfg depth
    then snd (generate_tree_text cfg st d prefix depth) = [] \<and>
         snd (generate_tree_markdown cfg st d depth) = []
    else list_all2 shows_name (snd (generate_tree_text cfg st d prefix depth))
           (names_below (snd (walk cfg st d depth))) \<and>
         list_all2 shows_name (snd (generate_tree_markdown cfg st d depth))
           (names_below (snd (walk cfg st d depth)))"
    by (simp add: exceeds_depth_no_lines text_projection(1) markdown_projection(1)
          names_below_def text_lines_show_names(2) markdown_lines_show_names(2))
next
  fix n
  assume "n \<in> set (concat (map json_names (json_children (snd (generate_tree_json cfg st d depth)))))"
  then show "\<not> should_ignore cfg n" by (rule json_children_names_kept)
qed

theorem rendered_names_not_ignored_witness:
  "snd (generate_tree_text (TreeConfig_default\<lparr>ignore_patterns := {''*.pyc''}\<rparr>) TreeStats_init
      (PDir ''root'' None [PFile ''module.pyc'' None, PFile ''module.py'' None,
                           PDir ''.git'' None [PFile ''config'' None]]) [] 0)
     = [ELBOW @ '' module.py''] \<and>
   list_all2 shows_name
     (snd (generate_tree_text (TreeConfig_default\<lparr>ignore_patterns := {''*.pyc''}\<rparr>) TreeStats_init
        (PDir ''root'' None [PFile ''module.pyc'' None, PFile ''module.py'' None,
                             PDir ''.git'' None [PFile ''config'' None]]) [] 0))
     [''module.py''] \<and>
   \<not> should_ignore (TreeConfig_default\<lparr>ignore_patterns := {''*.pyc''}\<rparr>) ''module.py''"
proof -
  let ?cfg = "TreeConfig_default\<lparr>ignore_patterns := {''*.pyc''}\<rparr>"
  let ?d = "PDir ''root'' None [PFile ''module.pyc'' None, PFile ''module.py'' None,
                           PDir ''.git'' None [PFile ''config'' None]]"
  have names: "names_below (snd (walk ?cfg TreeStats_init ?d 0)) = [''module.py'']"
    by code_simp
  have lines: "snd (generate_tree_text ?cfg TreeStats_init ?d [] 0) = [ELBOW @ '' module.py'']"
    by code_simp
  have depth: "\<not> exceeds_depth ?cfg 0"
    by (simp add: exceeds_depth_def TreeConfig_default_def)
  from rendered_names_not_ignored [of ?cfg TreeStats_init ?d 0 "[]"] names depth lines
  show ?thesis by simp
qed

text \<open>
  The claim as stated includes the root: \<open>generate_to_string\<close> writes the name of the
  root without consulting \<open>should_ignore\<close>, so a root called \<^verbatim>\<open>venv\<close> is rendered.
\<close>

theorem root_name_unfiltered_counterexample:
  "generate_to_string \<lparr>dumps = (\<lambda>j. []), html_page = (\<lambda>n t. [])\<rparr> TreeConfig_default TEXT
       TreeStats_init (Some (PDir ''venv'' None []))
     = (TreeStats_init, Inr ''venv'') \<and>
   should_ignore TreeConfig_default ''venv''"
  by code_simp

section \<open>Properties: one canonical tree behind the formats\<close>





section \<open>Properties: the order of the children\<close>













section \<open>Properties: a listing that fails\<close>

lemma walk_errors:
  "errors (fst (walk cfg st d depth)) = errors st + error_nodes (snd (walk cfg st d depth))"
  "errors (fst (walk_entries cfg st es depth)) =
     errors st + sum_list (map error_nodes (snd (walk_entries cfg st es depth)))"
proof (induction cfg st d depth and cfg st es depth rule: walk_walk_entries.induct)
  case (1 cfg st directory depth)
  then show ?case
    by (cases "iterdir directory") (simp_all add: walk.simps(1) Let_def count_error_def)
next
  case (2 cfg st depth)
  show ?case by simp
next
  case (3 cfg st entry rest depth)
  then show ?case by (simp add: Let_def)
qed

lemma walk_stats_free_ex:
  fixes st :: TreeStats
  shows "\<exists>T. \<forall>s. snd (walk cfg s d depth) = T"
    and "\<exists>Ts. \<forall>s. snd (walk_entries cfg s es depth) = Ts"
proof (induction cfg st d depth and cfg st es depth rule: walk_walk_entries.induct)
  case (1 cfg st directory depth)
  show ?case
  proof (cases "iterdir directory")
    case (Inl m)
    then show ?thesis by (simp add: walk_shape)
  next
    case (Inr es)
    from "1.IH" [OF Inr]
    obtain Ts where "\<forall>s. snd (walk_entries cfg s (listed_entries cfg es) depth) = Ts" ..
    with Inr show ?thesis by (simp add: walk_shape)
  qed
next
  case (2 cfg st depth)
  show ?case by simp
next
  case (3 cfg st entry rest depth)
  show ?case
  proof (cases "is_dir entry")
    case False
    from "3.IH"(3) [OF False refl]
    obtain Ts where "\<forall>s. snd (walk_entries cfg s rest depth) = Ts" ..
    with False show ?thesis by (simp add: Let_def)
  next
    case True
    from "3.IH"(2) [OF True refl refl]
    obtain Ts where r: "\<forall>s. snd (walk_entries cfg s rest depth) = Ts" ..
    show ?thesis
    proof (cases "within_depth cfg (depth + 1)")
      case wd: True
      from "3.IH"(1) [OF True refl wd]
      obtain T where "\<forall>s. snd (walk cfg s entry (depth + 1)) = T" ..
      with True wd r show ?thesis by (simp add: Let_def)
    next
      case wd: False
      with True r show ?thesis by (simp add: Let_def)
    qed
  qed
qed

lemma walk_stats_free:
  "snd (walk cfg st d depth) = snd (walk cfg st' d depth)"
  "snd (walk_entries cfg st es depth) = snd (walk_entries cfg st' es depth)"
proof -
  from walk_stats_free_ex(1) [of cfg d depth]
  obtain T where "\<forall>s. snd (walk cfg s d depth) = T" ..
  then show "snd (walk cfg st d depth) = snd (walk cfg st' d depth)" by simp
  from walk_stats_free_ex(2) [of cfg es depth]
  obtain Ts where "\<forall>s. snd (walk_entries cfg s es depth) = Ts" ..
  then show "snd (walk_entries cfg st es depth) = snd (walk_entries cfg st' es depth)" by simp
qed


lemma json_stats_free_ex:
  fixes st :: TreeStats
  shows "\<exists>j. \<forall>s. snd (generate_tree_json cfg s d depth) = j"
    and "\<exists>js. \<forall>s. snd (json_entries cfg s es depth) = js"
proof (induction cfg st d depth and cfg st es depth rule: generate_tree_json_json_entries.induct)
  case (1 cfg st directory depth)
  show ?case
  proof (cases "exceeds_depth cfg depth")
    case True
    then show ?thesis by (simp add: generate_tree_json.simps(1))
  next
    case ex: False
    show ?thesis
    proof (cases "iterdir directory")
      case (Inl m)
      with ex show ?thesis by (simp add: generate_tree_json.simps(1))
    next
      case (Inr es)
      from "1.IH" [OF ex Inr]
      obtain js where "\<forall>s. snd (json_entries cfg s (listed_entries cfg es) depth) = js" ..
      with ex Inr show ?thesis by (simp add: generate_tree_json.simps(1) Let_def)
    qed
  qed
next
  case (2 cfg st depth)
  show ?case by simp
next
  case (3 cfg st entry rest depth)
  show ?case
  proof (cases "is_dir entry")
    case False
    from "3.IH"(3) [OF False refl]
    obtain js where "\<forall>s. snd (json_entries cfg s rest depth) = js" ..
    with False show ?thesis by (simp add: Let_def)
  next
    case True
    from "3.IH"(2) [OF True refl refl]
    obtain js where r: "\<forall>s. snd (json_entries cfg s rest depth) = js" ..
    from "3.IH"(1) [OF True refl]
    obtain j where "\<forall>s. snd (generate_tree_json cfg s entry (depth + 1)) = j" ..
    with True r show ?thesis by (simp add: Let_def)
  qed
qed

lemma json_stats_free:
  "snd (generate_tree_json cfg st d depth) = snd (generate_tree_json cfg st' d depth)"
  "snd (json_entries cfg st es depth) = snd (json_entries cfg st' es depth)"
proof -
  from json_stats_free_ex(1) [of cfg d depth]
  obtain j where "\<forall>s. snd (generate_tree_json cfg s d depth) = j" ..
  then show "snd (generate_tree_json cfg st d depth) = snd (generate_tree_json cfg st' d depth)"
    by simp
  from json_stats_free_ex(2) [of cfg es depth]
  obtain js where "\<forall>s. snd (json_entries cfg s es depth) = js" ..
  then show "snd (json_entries cfg st es depth) = snd (json_entries cfg st' es depth)" by simp
qed

lemma walk_entries_append:
  "snd (walk_entries cfg st (xs @ ys) depth) =
     snd (walk_entries cfg st xs depth) @ snd (walk_entries cfg st ys depth)"
proof (induction xs arbitrary: st)
  case Nil
  show ?case by simp
next
  case (Cons x xs)
  show ?case
    by (simp add: Let_def Cons.IH)
       (metis walk_stats_free(2))
qed

lemma json_entries_append:
  "snd (json_entries cfg st (xs @ ys) depth) =
     snd (json_entries cfg st xs depth) @ snd (json_entries cfg st ys depth)"
proof (induction xs arbitrary: st)
  case Nil
  show ?case by simp
next
  case (Cons x xs)
  show ?case
    by (simp add: Let_def Cons.IH)
       (metis json_stats_free(2))
qed


lemma text_nodes_swap:
  assumes "\<And>l. text_of_node p l n1 = text_of_node p l n2"
  shows "text_of_nodes p (A @ n1 # B) = text_of_nodes p (A @ n2 # B)"
  using assms by (induction A) simp_all

lemma markdown_nodes_swap:
  assumes "markdown_of_node k n1 = markdown_of_node k n2"
  shows "markdown_of_nodes k (A @ n1 # B) = markdown_of_nodes k (A @ n2 # B)"
  using assms by (induction A) simp_all

lemma walk_entries_failed:
  assumes "is_dir bad" and "iterdir bad = Inl msg"
  shows "snd (walk_entries cfg st [bad] depth) =
     [if within_depth cfg (depth + 1) then ErrorNode (name bad) (node_mode cfg bad) msg
      else Directory (name bad) (node_mode cfg bad) []]"
  using assms by (simp add: Let_def walk_shape)

lemma walk_entries_empty_dir:
  "snd (walk_entries cfg st [PDir n s []] depth) = [Directory n (node_mode cfg (PDir n s [])) []]"
  by (simp add: Let_def walk_shape listed_entries_def sorted_entries_def)

lemma node_mode_same_stat: "node_mode cfg (PDir (name bad) (stat bad) []) = node_mode cfg bad"
  by (simp add: node_mode_def)

lemma failed_like_empty_in_lines:
  assumes "is_dir bad" and "iterdir bad = Inl msg"
  shows "snd (text_entries cfg st (pre @ bad # post) prefix depth) =
         snd (text_entries cfg st (pre @ PDir (name bad) (stat bad) [] # post) prefix depth)"
    and "snd (markdown_entries cfg st (pre @ bad # post) depth) =
         snd (markdown_entries cfg st (pre @ PDir (name bad) (stat bad) [] # post) depth)"
proof -
  let ?good = "PDir (name bad) (stat bad) []"
  let ?A = "snd (walk_entries cfg st pre depth)"
  let ?B = "snd (walk_entries cfg st post depth)"
  let ?nb = "if within_depth cfg (depth + 1) then ErrorNode (name bad) (node_mode cfg bad) msg
      else Directory (name bad) (node_mode cfg bad) []"
  let ?ng = "Directory (name bad) (node_mode cfg bad) []"
  have split: "\<And>e. snd (walk_entries cfg st (pre @ e # post) depth) =
      ?A @ snd (walk_entries cfg st [e] depth) @ ?B"
    using walk_entries_append [of cfg st pre _ depth] walk_entries_append [of cfg st "[_]" post depth]
    by simp
  have b: "snd (walk_entries cfg st (pre @ bad # post) depth) = ?A @ ?nb # ?B"
    using split [of bad] walk_entries_failed [OF assms, of cfg st depth] by simp
  have g: "snd (walk_entries cfg st (pre @ ?good # post) depth) = ?A @ ?ng # ?B"
    using split [of ?good] walk_entries_empty_dir [of cfg st "name bad" "stat bad" depth]
    by (simp add: node_mode_same_stat)
  have t: "\<And>l. text_of_node prefix l ?nb = text_of_node prefix l ?ng" by simp
  have m: "markdown_of_node depth ?nb = markdown_of_node depth ?ng" by simp
  show "snd (text_entries cfg st (pre @ bad # post) prefix depth) =
         snd (text_entries cfg st (pre @ ?good # post) prefix depth)"
    using text_nodes_swap [of prefix ?nb ?ng ?A ?B, OF t]
    by (simp only: text_projection(2) snd_conv b g)
  show "snd (markdown_entries cfg st (pre @ bad # post) depth) =
         snd (markdown_entries cfg st (pre @ ?good # post) depth)"
    using markdown_nodes_swap [of depth ?nb ?ng ?A ?B, OF m]
    by (simp only: markdown_projection(2) snd_conv b g)
qed

lemma json_siblings_of_failed:
  "snd (json_entries cfg st (pre @ bad # post) depth) =
     snd (json_entries cfg st pre depth) @ snd (json_entries cfg st [bad] depth) @
     snd (json_entries cfg st post depth)"
  using json_entries_append [of cfg st pre "bad # post" depth]
    json_entries_append [of cfg st "[bad]" post depth]
  by simp

lemma failed_listing_result:
  assumes "\<not> exceeds_depth cfg depth" and "iterdir d = Inl msg"
  shows "generate_tree_text cfg st d prefix depth = (count_error st, [])"
    and "generate_tree_markdown cfg st d depth = (count_error st, [])"
    and "generate_tree_json cfg st d depth =
      (count_error st,
       JObj [(''name'', JStr (name d)), (''type'', JStr ''directory''),
             (''children'', JArr []), (''error'', JStr msg)])"
  using assms
  by (cases d; simp add: generate_tree_text.simps(1) generate_tree_markdown.simps(1)
        generate_tree_json.simps(1))+

lemma text_errors:
  "errors (fst (generate_tree_text cfg st d prefix depth)) =
     errors st + (if exceeds_depth cfg depth then 0 else error_nodes (snd (walk cfg st d depth)))"
proof (cases "exceeds_depth cfg depth")
  case True
  then show ?thesis by (simp add: generate_tree_text.simps(1))
next
  case False
  then show ?thesis by (simp add: text_projection(1) walk_errors(1))
qed

lemma markdown_errors:
  "errors (fst (generate_tree_markdown cfg st d depth)) =
     errors st + (if exceeds_depth cfg depth then 0 else error_nodes (snd (walk cfg st d depth)))"
proof (cases "exceeds_depth cfg depth")
  case True
  then show ?thesis by (simp add: generate_tree_markdown.simps(1))
next
  case False
  then show ?thesis by (simp add: markdown_projection(1) walk_errors(1))
qed

lemma json_errors:
  "errors (fst (generate_tree_json cfg st d depth)) =
     errors st + (if exceeds_depth cfg depth then 0 else error_nodes (snd (walk cfg st d depth)))"
  by (cases "exceeds_depth cfg depth") (simp_all add: json_stats(1) walk_errors(1))

text \<open>
  Claim C3, amended. In every format a directory whose listing fails adds exactly one
  to \<open>errors\<close> and nothing to the other counters, in total as many errors as the
  canonical tree has failed directories, and the failure goes no further: the other
  entries are rendered as they would be beside an empty directory. The JSON output
  holds the failed directory as a node of type directory with the message under the
  key \<^verbatim>\<open>"error"\<close> and no children. The text and the Markdown output show its name like
  that of an empty directory, without the message.
\<close>

theorem listing_failure_is_local:
  "(\<not> exceeds_depth cfg depth \<and> iterdir d = Inl msg \<longrightarrow>
      generate_tree_text cfg st d prefix depth = (count_error st, []) \<and>
      generate_tree_markdown cfg st d depth = (count_error st, []) \<and>
      generate_tree_json cfg st d depth =
        (count_error st,
         JObj [(''name'', JStr (name d)), (''type'', JStr ''directory''),
               (''children'', JArr []), (''error'', JStr msg)])) \<and>
   errors (count_error st) = errors st + 1 \<and>
   total_dirs (count_error st) = total_dirs st \<and>
   total_files (count_error st) = total_files st \<and>
   errors (fst (generate_tree_text cfg st d prefix depth)) =
     errors st + (if exceeds_depth cfg depth then 0 else error_nodes (snd (walk cfg st d depth))) \<and>
   errors (fst (generate_tree_markdown cfg st d depth)) =
     errors st + (if exceeds_depth cfg depth then 0 else error_nodes (snd (walk cfg st d depth))) \<and>
   errors (fst (generate_tree_json cfg st d depth)) =
     errors st + (if exceeds_depth cfg depth then 0 else error_nodes (snd (walk cfg st d depth))) \<and>
   (is_dir bad \<and> iterdir bad = Inl m \<longrightarrow>
      snd (text_entries cfg st (pre @ bad # post) prefix depth) =
        snd (text_entries cfg st (pre @ PDir (name bad) (stat bad) [] # post) prefix depth) \<and>
      snd (markdown_entries cfg st (pre @ bad # post) depth) =
        snd (markdown_entries cfg st (pre @ PDir (name bad) (stat bad) [] # post) depth) \<and>
      snd (json_entries cfg st (pre @ bad # post) depth) =
        snd (json_entries cfg st pre depth) @ snd (json_entries cfg st [bad] depth) @
        snd (json_entries cfg st post depth))"
proof (intro conjI impI)
  assume a: "\<not> exceeds_depth cfg depth \<and> iterdir d = Inl msg"
  then have a1: "\<not> exceeds_depth cfg depth" and a2: "iterdir d = Inl msg" by simp_all
  show "generate_tree_text cfg st d prefix depth = (count_error st, [])"
    by (rule failed_listing_result(1) [OF a1 a2])
  show "generate_tree_markdown cfg st d depth = (count_error st, [])"
    by (rule failed_listing_result(2) [OF a1 a2])
  show "generate_tree_json cfg st d depth =
        (count_error st,
         JObj [(''name'', JStr (name d)), (''type'', JStr ''directory''),
               (''children'', JArr []), (''error'', JStr msg)])"
    by (rule failed_listing_result(3) [OF a1 a2])
next
  show "errors (count_error st) = errors st + 1" by (simp add: count_error_def)
  show "total_dirs (count_error st) = total_dirs st" by (simp add: count_error_def)
  show "total_files (count_error st) = total_files st" by (simp add: count_error_def)
  show "errors (fst (generate_tree_text cfg st d prefix depth)) =
     errors st + (if exceeds_depth cfg depth then 0 else error_nodes (snd (walk cfg st d depth)))"
    by (rule text_errors)
  show "errors (fst (generate_tree_markdown cfg st d depth)) =
     errors st + (if exceeds_depth cfg depth then 0 else error_nodes (snd (walk cfg st d depth)))"
    by (rule markdown_errors)
  show "errors (fst (generate_tree_json cfg st d depth)) =
     errors st + (if exceeds_depth cfg depth then 0 else error_nodes (snd (walk cfg st d depth)))"
    by (rule json_errors)
next
  assume b: "is_dir bad \<and> iterdir bad = Inl m"
  then have b1: "is_dir bad" and b2: "iterdir bad = Inl m" by simp_all
  show "snd (text_entries cfg st (pre @ bad # post) prefix depth) =
        snd (text_entries cfg st (pre @ PDir (name bad) (stat bad) [] # post) prefix depth)"
    by (rule failed_like_empty_in_lines(1) [OF b1 b2])
  show "snd (markdown_entries cfg st (pre @ bad # post) depth) =
        snd (markdown_entries cfg st (pre @ PDir (name bad) (stat bad) [] # post) depth)"
    by (rule failed_like_empty_in_lines(2) [OF b1 b2])
  show "snd (json_entries cfg st (pre @ bad # post) depth) =
        snd (json_entries cfg st pre depth) @ snd (json_entries cfg st [bad] depth) @
        snd (json_entries cfg st post depth)"
    by (rule json_siblings_of_failed)
qed

theorem listing_failure_is_local_witness:
  "generate_tree_json TreeConfig_default TreeStats_init
      (PBadDir ''locked'' None ''Permission denied'') 0 =
     (count_error TreeStats_init,
      JObj [(''name'', JStr ''locked''), (''type'', JStr ''directory''),
            (''children'', JArr []), (''error'', JStr ''Permission denied'')]) \<and>
   errors (fst (generate_tree_json TreeConfig_default TreeStats_init
      (PBadDir ''locked'' None ''Permission denied'') 0)) = 1 \<and>
   snd (text_entries TreeConfig_default TreeStats_init
      ([PDir ''a'' None [PFile ''x'' None]] @ PBadDir ''locked'' None ''Permission denied''
         # [PFile ''z'' None]) [] 0) =
   snd (text_entries TreeConfig_default TreeStats_init
      ([PDir ''a'' None [PFile ''x'' None]] @ PDir ''locked'' None [] # [PFile ''z'' None]) [] 0)"
proof -
  let ?bad = "PBadDir ''locked'' None ''Permission denied''"
  have e: "\<not> exceeds_depth TreeConfig_default 0"
    by (simp add: exceeds_depth_def TreeConfig_default_def)
  have n: "error_nodes (snd (walk TreeConfig_default TreeStats_init ?bad 0)) = 1"
    by code_simp
  from listing_failure_is_local
    [where cfg = TreeConfig_default and depth = 0 and d = ?bad and msg = "''Permission denied''"
       and st = TreeStats_init and prefix = "[]" and bad = ?bad and m = "''Permission denied''"
       and pre = "[PDir ''a'' None [PFile ''x'' None]]" and post = "[PFile ''z'' None]"]
    e n
  show ?thesis by (simp add: TreeStats_init_def)
qed

text \<open>
  The claim as stated fails for the text and the Markdown format: their output for a
  directory that failed to list is the output for an empty directory, so it holds no
  error node and no message.
\<close>

theorem text_has_no_error_node_counterexample:
  "snd (generate_tree_text TreeConfig_default TreeStats_init
      (PDir ''root'' None [PBadDir ''locked'' None ''Permission denied'']) [] 0) =
     [ELBOW @ '' locked''] \<and>
   snd (generate_tree_text TreeConfig_default TreeStats_init
      (PDir ''root'' None [PDir ''locked'' None []]) [] 0) = [ELBOW @ '' locked''] \<and>
   snd (generate_tree_markdown TreeConfig_default TreeStats_init
      (PDir ''root'' None [PBadDir ''locked'' None ''Permission denied'']) 0) =
     [''- **locked/**''] \<and>
   snd (generate_tree_markdown TreeConfig_default TreeStats_init
      (PDir ''root'' None [PDir ''locked'' None []]) 0) = [''- **locked/**'']"
  by code_simp

section \<open>Properties: size formatting\<close>

lemma digit_chars: "map digit_char [0..<10] = ''0123456789''"
  by code_simp

lemma digit_char_in_DIGITS: "d < 10 \<Longrightarrow> digit_char d \<in> DIGITS"
proof -
  assume "d < 10"
  then have "digit_char d \<in> set (map digit_char [0..<10])" by simp
  then show ?thesis by (simp only: digit_chars DIGITS_def)
qed

lemma show_nat_digits: "set (show_nat n) \<subseteq> DIGITS \<and> show_nat n \<noteq> []"
proof (induction n rule: show_nat.induct)
  case (1 n)
  show ?case
  proof (cases "n < 10")
    case True
    then show ?thesis by (simp add: show_nat.simps [of n] digit_char_in_DIGITS)
  next
    case False
    with 1 show ?thesis by (simp add: show_nat.simps [of n] digit_char_in_DIGITS)
  qed
qed

lemma fmt_1f_shape:
  "\<exists>ds c. fmt_1f x = ds @ ''.'' @ [c] \<and> ds \<noteq> [] \<and> set ds \<subseteq> DIGITS \<and> c \<in> DIGITS"
  unfolding fmt_1f_def using show_nat_digits [of "tenths x div 10"]
  by (intro exI [of _ "show_nat (tenths x div 10)"] exI [of _ "digit_char (tenths x mod 10)"])
     (simp add: digit_char_in_DIGITS)

lemma round_half_even_bounds: "\<lfloor>x\<rfloor> \<le> round_half_even x \<and> round_half_even x \<le> \<lfloor>x\<rfloor> + 1"
  by (simp add: round_half_even_def Let_def)

lemma round_half_even_mono:
  assumes "x \<le> y"
  shows "round_half_even x \<le> round_half_even y"
proof (cases "\<lfloor>x\<rfloor> < \<lfloor>y\<rfloor>")
  case True
  with round_half_even_bounds [of x] round_half_even_bounds [of y] show ?thesis by linarith
next
  case False
  with assms have eq: "\<lfloor>x\<rfloor> = \<lfloor>y\<rfloor>" using floor_mono [of x y] by linarith
  with assms have "x - of_int \<lfloor>x\<rfloor> \<le> y - of_int \<lfloor>y\<rfloor>" by simp
  with eq show ?thesis by (auto simp: round_half_even_def Let_def)
qed

lemma tenths_mono: "x \<le> y \<Longrightarrow> tenths x \<le> tenths y"
  unfolding tenths_def by (intro nat_mono round_half_even_mono) simp

lemma unit_steps_mono: "x \<le> y \<Longrightarrow> unit_steps x n \<le> unit_steps y n"
  by (induction n arbitrary: x y) (auto simp: divide_right_mono)

lemma unit_steps_le: "unit_steps x n \<le> n"
  by (induction n arbitrary: x) auto

lemma unit_steps_stops:
  "unit_steps x n < n \<Longrightarrow> x / 1024 ^ unit_steps x n < 1024"
proof (induction n arbitrary: x)
  case 0
  then show ?case by simp
next
  case (Suc n)
  show ?case
  proof (cases "x < 1024")
    case True
    then show ?thesis by simp
  next
    case False
    with Suc.prems have "unit_steps (x / 1024) n < n" by simp
    from Suc.IH [OF this] False show ?thesis by simp
  qed
qed

lemma unit_steps_before:
  "j < unit_steps x n \<Longrightarrow> 1024 \<le> x / 1024 ^ j"
proof (induction n arbitrary: x j)
  case 0
  then show ?case by simp
next
  case (Suc n)
  show ?case
  proof (cases j)
    case 0
    with Suc.prems show ?thesis by (auto split: if_splits)
  next
    case (Suc i)
    with Suc.prems have "i < unit_steps (x / 1024) n" by (auto split: if_splits)
    from Suc.IH [OF this] Suc show ?thesis by simp
  qed
qed

lemma format_size_loop_closed:
  "format_size_loop x units =
     ''('' @ fmt_1f (x / 1024 ^ unit_steps x (length units)) @
     (units @ [''PB'']) ! unit_steps x (length units) @ '')''"
  by (induction units arbitrary: x) simp_all

lemma format_size_closed:
  "format_size sz =
     ''('' @ fmt_1f (of_nat sz / 1024 ^ unit_index sz) @ UNITS ! unit_index sz @ '')''"
proof -
  have l: "length [''B'', ''KB'', ''MB'', ''GB'', ''TB''] = 5" by simp
  have u: "[''B'', ''KB'', ''MB'', ''GB'', ''TB''] @ [''PB''] = UNITS" by (simp add: UNITS_def)
  show ?thesis
    unfolding format_size_def unit_index_def by (simp only: format_size_loop_closed l u)
qed


lemma format_size_examples:
  "format_size 100 = ''(100.0B)''"
  "format_size 1024 = ''(1.0KB)''"
  "format_size 1048576 = ''(1.0MB)''"
  unfolding format_size_def of_nat_numeral by code_simp+

lemma unit_index_mono: "a \<le> b \<Longrightarrow> unit_index a \<le> unit_index b"
  unfolding unit_index_def by (rule unit_steps_mono) simp

lemma size_tenths_mono:
  assumes "a \<le> b" and "unit_index a = unit_index b"
  shows "tenths (of_nat a / 1024 ^ unit_index a) \<le> tenths (of_nat b / 1024 ^ unit_index b)"
proof -
  from assms(1) have "(of_nat a :: rat) / 1024 ^ unit_index b \<le> of_nat b / 1024 ^ unit_index b"
    by (intro divide_right_mono) simp_all
  with assms(2) show ?thesis by (simp add: tenths_mono)
qed

text \<open>
  Claim C6. For a size below \<open>2 ^ 53\<close>, where the divisions of the source are exact:
  \<open>format_size\<close> divides by 1024 once for each unit it advances through, every value
  before the last being at least 1024 and the last below 1024 unless the unit is PB;
  it renders the last value with digits, a point and exactly one digit, followed by
  the unit, in parentheses. It is monotonic: a larger size never has an earlier unit,
  and within one unit never a smaller rendered value. And 100, 1024 and 1048576 bytes
  render as 100.0 B, 1.0 KB and 1.0 MB.
\<close>

theorem format_size_units:
  "(sz < 2 ^ 53 \<longrightarrow>
      unit_index sz \<le> 5 \<and>
      (unit_index sz < 5 \<longrightarrow> of_nat sz / 1024 ^ unit_index sz < (1024 :: rat)) \<and>
      (\<forall>j < unit_index sz. (1024 :: rat) \<le> of_nat sz / 1024 ^ j) \<and>
      format_size sz =
        ''('' @ fmt_1f (of_nat sz / 1024 ^ unit_index sz) @ UNITS ! unit_index sz @ '')'' \<and>
      (\<exists>ds c. fmt_1f (of_nat sz / 1024 ^ unit_index sz) = ds @ ''.'' @ [c] \<and>
          ds \<noteq> [] \<and> set ds \<subseteq> DIGITS \<and> c \<in> DIGITS)) \<and>
   (a \<le> b \<and> b < 2 ^ 53 \<longrightarrow>
      unit_index a \<le> unit_index b \<and>
      (unit_index a = unit_index b \<longrightarrow>
         tenths (of_nat a / 1024 ^ unit_index a) \<le> tenths (of_nat b / 1024 ^ unit_index b))) \<and>
   format_size 100 = ''(100.0B)'' \<and>
   format_size 1024 = ''(1.0KB)'' \<and>
   format_size 1048576 = ''(1.0MB)''"
proof (intro conjI impI allI)
  show "unit_index sz \<le> 5" unfolding unit_index_def by (rule unit_steps_le)
  show "of_nat sz / 1024 ^ unit_index sz < (1024 :: rat)" if "unit_index sz < 5"
    using that unfolding unit_index_def by (rule unit_steps_stops)
  show "(1024 :: rat) \<le> of_nat sz / 1024 ^ j" if "j < unit_index sz" for j
    using that unfolding unit_index_def by (rule unit_steps_before)
  show "format_size sz =
      ''('' @ fmt_1f (of_nat sz / 1024 ^ unit_index sz) @ UNITS ! unit_index sz @ '')''"
    by (rule format_size_closed)
  show "\<exists>ds c. fmt_1f (of_nat sz / 1024 ^ unit_index sz) = ds @ ''.'' @ [c] \<and>
          ds \<noteq> [] \<and> set ds \<subseteq> DIGITS \<and> c \<in> DIGITS"
    by (rule fmt_1f_shape)
  show "unit_index a \<le> unit_index b" if "a \<le> b \<and> b < 2 ^ 53"
    using that by (simp add: unit_index_mono)
  show "tenths (of_nat a / 1024 ^ unit_index a) \<le> tenths (of_nat b / 1024 ^ unit_index b)"
    if "a \<le> b \<and> b < 2 ^ 53" and "unit_index a = unit_index b"
  proof -
    from that have "a \<le> b" by simp
    then show ?thesis using that(2) by (rule size_tenths_mono)
  qed
  show "format_size 100 = ''(100.0B)''" by (rule format_size_examples(1))
  show "format_size 1024 = ''(1.0KB)''" by (rule format_size_examples(2))
  show "format_size 1048576 = ''(1.0MB)''" by (rule format_size_examples(3))
qed

theorem format_size_units_witness:
  "format_size 1536 = ''(1.5KB)'' \<and> unit_index 1000 \<le> unit_index 2000 \<and>
   unit_index 1536 = 1"
proof -
  have i: "unit_index 1536 = 1" unfolding unit_index_def of_nat_numeral by code_simp
  have f: "fmt_1f (1536 / 1024) = ''1.5''" by code_simp
  have u: "UNITS ! 1 = ''KB''" by (simp add: UNITS_def)
  from format_size_units [of 1536 1000 2000] i f u show ?thesis by simp
qed

end
